theory Spec2Isabelle
  imports Complex_Main
begin

section \<open>JavaScript strings\<close>

text \<open>
  The server handles dotted-quad addresses, host names and the output of system tools.
  A JavaScript string is modelled as a \<open>string\<close> of ASCII characters; \<open>undefined\<close> and
  \<open>null\<close> are \<open>None\<close> of an option type.
\<close>

text \<open>\<^verbatim>\<open>s.split(sep)\<close> for a one-character separator: never an empty array.\<close>

fun split :: "char \<Rightarrow> string \<Rightarrow> string list" where
  "split sep [] = [[]]"
| "split sep (c # s) =
     (if c = sep then [] # split sep s
      else (case split sep s of p # ps \<Rightarrow> (c # p) # ps | [] \<Rightarrow> [[c]]))"

text \<open>\<^verbatim>\<open>parts.join(sep)\<close>.\<close>

fun join :: "string \<Rightarrow> string list \<Rightarrow> string" where
  "join sep [] = []"
| "join sep [p] = p"
| "join sep (p # q # ps) = p @ sep @ join sep (q # ps)"

text \<open>\<^verbatim>\<open>parts[i]\<close>: \<open>undefined\<close> beyond the end of the array.\<close>

fun elemAt :: "'a list \<Rightarrow> nat \<Rightarrow> 'a option" where
  "elemAt [] i = None"
| "elemAt (x # xs) 0 = Some x"
| "elemAt (x # xs) (Suc i) = elemAt xs i"

text \<open>String conversion of a value that may be \<open>undefined\<close>, as a template literal
  and \<^verbatim>\<open>parseInt\<close> do it.\<close>

fun toString :: "string option \<Rightarrow> string" where
  "toString None = ''undefined''"
| "toString (Some s) = s"

text \<open>Truthiness of a string that may be \<open>null\<close>: \<open>null\<close> and the empty string are falsy.\<close>

fun truthy :: "string option \<Rightarrow> bool" where
  "truthy None = False"
| "truthy (Some s) = (s \<noteq> [])"

text \<open>\<^verbatim>\<open>x || dflt\<close> on such a value.\<close>

definition orElse :: "string option \<Rightarrow> string \<Rightarrow> string" where
  "orElse x dflt = (if truthy x then the x else dflt)"

definition toLowerChar :: "char \<Rightarrow> char" where
  "toLowerChar c =
     (let n = (of_char c :: nat) in if 65 \<le> n \<and> n \<le> 90 then char_of (n + 32) else c)"

definition toUpperChar :: "char \<Rightarrow> char" where
  "toUpperChar c =
     (let n = (of_char c :: nat) in if 97 \<le> n \<and> n \<le> 122 then char_of (n - 32) else c)"

definition toLowerCase :: "string \<Rightarrow> string" where
  "toLowerCase s = map toLowerChar s"

definition toUpperCase :: "string \<Rightarrow> string" where
  "toUpperCase s = map toUpperChar s"

text \<open>\<^verbatim>\<open>s.substring(0, n)\<close>.\<close>

definition substring0 :: "nat \<Rightarrow> string \<Rightarrow> string" where
  "substring0 n s = take n s"

fun startsWith :: "string \<Rightarrow> string \<Rightarrow> bool" where
  "startsWith s [] = True"
| "startsWith [] (p # ps) = False"
| "startsWith (c # s) (p # ps) = (c = p \<and> startsWith s ps)"

text \<open>\<^verbatim>\<open>s.includes(pat)\<close>: \<open>pat\<close> occurs in \<open>s\<close> as a contiguous substring.\<close>

fun str_includes :: "string \<Rightarrow> string \<Rightarrow> bool" where
  "str_includes [] pat = (pat = [])"
| "str_includes (c # s) pat = (startsWith (c # s) pat \<or> str_includes s pat)"

text \<open>White space that \<^verbatim>\<open>parseInt\<close> and \<^verbatim>\<open>trim\<close> skip: TAB, LF, VT, FF, CR, space.\<close>

definition isWhiteSpace :: "char \<Rightarrow> bool" where
  "isWhiteSpace c = ((of_char c :: nat) \<in> {9, 10, 11, 12, 13, 32})"

text \<open>The value of a digit in the given radix, if the character is one.\<close>

definition digitValue :: "nat \<Rightarrow> char \<Rightarrow> nat option" where
  "digitValue radix c =
     (let n = (of_char c :: nat);
          v = (if 48 \<le> n \<and> n \<le> 57 then Some (n - 48)
               else if 97 \<le> n \<and> n \<le> 122 then Some (n - 87)
               else if 65 \<le> n \<and> n \<le> 90 then Some (n - 55)
               else None)
      in case v of Some d \<Rightarrow> (if d < radix then Some d else None) | None \<Rightarrow> None)"

text \<open>The decimal digits \<open>0\<close> to \<open>9\<close>.\<close>

definition isDigit :: "char \<Rightarrow> bool" where
  "isDigit c = (48 \<le> (of_char c :: nat) \<and> (of_char c :: nat) \<le> 57)"

text \<open>The longest prefix of digits, read in the radix; \<open>None\<close> when there is no digit.\<close>

fun digitsPrefix :: "nat \<Rightarrow> nat option \<Rightarrow> string \<Rightarrow> nat option" where
  "digitsPrefix radix acc [] = acc"
| "digitsPrefix radix acc (c # s) =
     (case digitValue radix c of
        None \<Rightarrow> acc
      | Some d \<Rightarrow> digitsPrefix radix (Some ((case acc of None \<Rightarrow> 0 | Some a \<Rightarrow> a) * radix + d)) s)"

text \<open>
  \<^verbatim>\<open>parseInt(s)\<close> with no radix argument: leading white space is skipped, then a sign,
  then a \<open>0x\<close>/\<open>0X\<close> prefix selects radix 16, otherwise radix 10; the longest prefix of
  digits is read and the rest ignored. \<open>None\<close> is \<open>NaN\<close>. The result is kept as an exact
  integer: the program only compares it with 1, 50 and 100, and rounding a large
  integer to a double does not change these comparisons.
\<close>

definition parseInt :: "string option \<Rightarrow> int option" where
  "parseInt x =
     (let s = dropWhile isWhiteSpace (toString x);
          (sign, s1) = (case s of
                          c # r \<Rightarrow> (if c = CHR ''-'' then (- 1, r)
                                     else if c = CHR ''+'' then (1, r) else (1, s))
                        | [] \<Rightarrow> (1, s));
          (radix, s2) = (if startsWith s1 ''0x'' \<or> startsWith s1 ''0X''
                         then (16, drop 2 s1) else (10, s1))
      in map_option (\<lambda>n. sign * int n) (digitsPrefix radix None s2))"

text \<open>\<^verbatim>\<open>`${i}`\<close> for a non-negative integer: its decimal numeral.\<close>

fun decimal :: "nat \<Rightarrow> string" where
  "decimal n =
     (if n < 10 then [char_of (48 + n)] else decimal (n div 10) @ [char_of (48 + n mod 10)])"

declare decimal.simps [simp del]

section \<open>Network Topology Resolver\<close>

text \<open>An entry of \<^verbatim>\<open>os.networkInterfaces()\<close>.\<close>

record iface =
  iface_address :: string
  iface_netmask :: string
  iface_family :: string
  iface_internal :: bool

text \<open>The object that \<^verbatim>\<open>getLocalNetwork\<close> returns: \<^verbatim>\<open>{ ip, netmask, networkRange }\<close>.\<close>

record network =
  net_ip :: string
  net_netmask :: string
  net_networkRange :: string

text \<open>\<^verbatim>\<open>calculateNetworkRange(ip, netmask)\<close>, lines 51-55.\<close>

definition calculateNetworkRange :: "string \<Rightarrow> string \<Rightarrow> string" where
  "calculateNetworkRange ip netmask =
     (let ipParts = split CHR ''.'' ip
      in toString (elemAt ipParts 0) @ ''.'' @ toString (elemAt ipParts 1) @ ''.''
         @ toString (elemAt ipParts 2) @ ''.0/24'')"

text \<open>
  \<^verbatim>\<open>getLocalNetwork()\<close>, lines 34-48. The argument is what \<^verbatim>\<open>os.networkInterfaces()\<close>
  returns: the interface names in key order, each with its array of addresses.
\<close>

fun firstIPv4 :: "iface list \<Rightarrow> network option" where
  "firstIPv4 [] = None"
| "firstIPv4 (i # rest) =
     (if iface_family i = ''IPv4'' \<and> \<not> iface_internal i
      then Some \<lparr> net_ip = iface_address i, net_netmask = iface_netmask i,
                  net_networkRange = calculateNetworkRange (iface_address i) (iface_netmask i) \<rparr>
      else firstIPv4 rest)"

fun getLocalNetwork :: "(string \<times> iface list) list \<Rightarrow> network option" where
  "getLocalNetwork [] = None"
| "getLocalNetwork ((name, ifaces) # interfaces) =
     (case firstIPv4 ifaces of
        Some n \<Rightarrow> Some n
      | None \<Rightarrow> getLocalNetwork interfaces)"

section \<open>Device classification\<close>

text \<open>The strings that \<^verbatim>\<open>guessDeviceType\<close> returns; \<open>SmartTV\<close> is \<^verbatim>\<open>'Smart TV'\<close>.\<close>

datatype device_type =
  Router | Switch | Printer | Phone | SmartTV | Camera | Server | Computer | Device

text \<open>\<^verbatim>\<open>guessDeviceType(ip, hostname, mac)\<close>, lines 140-169. A comparison with \<open>NaN\<close>
  is false.\<close>

definition guessDeviceType :: "string \<Rightarrow> string option \<Rightarrow> string option \<Rightarrow> device_type" where
  "guessDeviceType ip hostname mac =
     (let ipParts = split CHR ''.'' ip;
          lastOctet = parseInt (elemAt ipParts 3)
      in if lastOctet = Some 1 then Router
         else
           (let byName =
                  (if truthy hostname then
                     (let lower = toLowerCase (the hostname)
                      in if str_includes lower ''router'' \<or> str_includes lower ''gateway'' then Some Router
                         else if str_includes lower ''switch'' then Some Switch
                         else if str_includes lower ''printer'' then Some Printer
                         else if str_includes lower ''phone'' \<or> str_includes lower ''android''
                                 \<or> str_includes lower ''iphone'' then Some Phone
                         else if str_includes lower ''tv'' \<or> str_includes lower ''roku''
                                 \<or> str_includes lower ''chromecast'' then Some SmartTV
                         else if str_includes lower ''camera'' then Some Camera
                         else if str_includes lower ''server'' then Some Server
                         else None)
                   else None)
            in case byName of
                 Some t \<Rightarrow> t
               | None \<Rightarrow>
                   (let vendor = (if truthy mac
                                  then Some (toUpperCase (substring0 8 (the mac))) else None)
                    in if (case lastOctet of Some n \<Rightarrow> n \<le> 50 | None \<Rightarrow> False) then Server
                       else if (case lastOctet of Some n \<Rightarrow> n \<le> 100 | None \<Rightarrow> False) then Computer
                       else Device)))"

text \<open>
  The heuristic in the words of the specification, for an address whose last octet is
  the number \<open>lastOctet\<close>: the first rule that matches decides.
\<close>

definition nameContains :: "string option \<Rightarrow> string \<Rightarrow> bool" where
  "nameContains name w = (case name of None \<Rightarrow> False | Some s \<Rightarrow> str_includes (toLowerCase s) w)"

definition classify :: "nat \<Rightarrow> string option \<Rightarrow> device_type" where
  "classify lastOctet name =
     (if lastOctet = 1 then Router
      else if nameContains name ''router'' \<or> nameContains name ''gateway'' then Router
      else if nameContains name ''switch'' then Switch
      else if nameContains name ''printer'' then Printer
      else if nameContains name ''phone'' \<or> nameContains name ''android''
              \<or> nameContains name ''iphone'' then Phone
      else if nameContains name ''tv'' \<or> nameContains name ''roku''
              \<or> nameContains name ''chromecast'' then SmartTV
      else if nameContains name ''camera'' then Camera
      else if nameContains name ''server'' then Server
      else if lastOctet \<le> 50 then Server
      else if lastOctet \<le> 100 then Computer
      else Device)"

section \<open>Host Probe\<close>

text \<open>A value that is a number, a string or \<open>undefined\<close>: the \<^verbatim>\<open>time\<close> of a ping
  response is a number of milliseconds or the string \<^verbatim>\<open>'unknown'\<close>. A finite double is
  a rational number; no arithmetic is done on it.\<close>

datatype js_value = Num rat | Str string | Undefined

text \<open>\<^verbatim>\<open>v || 0\<close>: zero, the empty string and \<open>undefined\<close> are falsy.\<close>

fun orZero :: "js_value \<Rightarrow> js_value" where
  "orZero (Num r) = Num r"
| "orZero (Str s) = (if s = [] then Num 0 else Str s)"
| "orZero Undefined = Num 0"

datatype status = Online | Offline

text \<open>The device object that \<^verbatim>\<open>scanHost\<close> builds (lines 103-111); \<open>lastSeen\<close> is a
  \<^verbatim>\<open>Date\<close>, a number of milliseconds.\<close>

record device =
  dev_ip :: string
  dev_mac :: string
  dev_hostname :: string
  dev_type :: device_type
  dev_status :: status
  dev_lastSeen :: nat
  dev_responseTime :: js_value

text \<open>The fields that the program reads of what \<^verbatim>\<open>ping.promise.probe\<close> resolves to.\<close>

record ping_response =
  ping_alive :: bool
  ping_time :: js_value

datatype error = Error string

text \<open>
  The capabilities taken from the environment during one sweep or one monitoring cycle,
  each as a function of the address it is asked about (within a sweep, and within a
  cycle, every address is asked about once):
  \<^item> \<open>networkInterfaces\<close>: the result of \<^verbatim>\<open>os.networkInterfaces()\<close>;
  \<^item> \<open>probe\<close>: \<^verbatim>\<open>ping.promise.probe\<close>, which resolves (\<open>Inr\<close>) or rejects (\<open>Inl\<close>);
  \<^item> \<open>arpGetMAC\<close>: the arguments \<^verbatim>\<open>(err, mac)\<close> that \<^verbatim>\<open>arp.getMAC\<close> gives its callback,
    the first as its truthiness;
  \<^item> \<open>nslookup\<close>: the standard output of \<^verbatim>\<open>nslookup\<close>, or the rejection of the call;
  \<^item> \<open>now\<close>: the time that \<^verbatim>\<open>new Date()\<close> reads.
\<close>

record environment =
  networkInterfaces :: "(string \<times> iface list) list"
  probe :: "string \<Rightarrow> error + ping_response"
  arpGetMAC :: "string \<Rightarrow> bool \<times> string option"
  nslookup :: "string \<Rightarrow> error + string"
  now :: "string \<Rightarrow> nat"

text \<open>\<^verbatim>\<open>getMacAddress(ip)\<close>, lines 120-126.\<close>

definition getMacAddress :: "environment \<Rightarrow> string \<Rightarrow> string option" where
  "getMacAddress env addr = (case arpGetMAC env addr of (err, mac) \<Rightarrow> if err then None else mac)"

definition isLineTerminator :: "char \<Rightarrow> bool" where
  "isLineTerminator c = ((of_char c :: nat) \<in> {10, 13})"

text \<open>
  \<^verbatim>\<open>stdout.match(/name = (.+)/i)\<close>, the first group: the leftmost place where
  \<^verbatim>\<open>name = \<close> stands, in any case, before at least one character of the same line; the
  group is the rest of that line.
\<close>

fun matchName :: "string \<Rightarrow> string option" where
  "matchName [] = None"
| "matchName (c # s) =
     (let rest = drop 7 (c # s)
      in if startsWith (toLowerCase (c # s)) ''name = ''
            \<and> (case rest of [] \<Rightarrow> False | x # _ \<Rightarrow> \<not> isLineTerminator x)
         then Some (takeWhile (\<lambda>x. \<not> isLineTerminator x) rest)
         else matchName s)"

text \<open>\<^verbatim>\<open>s.trim()\<close>.\<close>

definition trim :: "string \<Rightarrow> string" where
  "trim s = rev (dropWhile isWhiteSpace (rev (dropWhile isWhiteSpace s)))"

text \<open>\<^verbatim>\<open>getHostname(ip)\<close>, lines 129-137.\<close>

definition getHostname :: "environment \<Rightarrow> string \<Rightarrow> string option" where
  "getHostname env addr =
     (case nslookup env addr of
        Inl e \<Rightarrow> None
      | Inr stdout \<Rightarrow> (case matchName stdout of None \<Rightarrow> None | Some g \<Rightarrow> Some (trim g)))"

text \<open>
  \<^verbatim>\<open>scanHost(ip)\<close>, lines 86-117; \<open>None\<close> is \<open>null\<close>. The whole body is inside
  \<^verbatim>\<open>try\<close>, so a rejected probe is caught and the function itself never rejects.
\<close>

definition scanHost :: "environment \<Rightarrow> string \<Rightarrow> device option" where
  "scanHost env addr =
     (case probe env addr of
        Inl e \<Rightarrow> None
      | Inr isAlive \<Rightarrow>
          if ping_alive isAlive then
            (let macAddress = getMacAddress env addr;
                 hostname = getHostname env addr;
                 deviceType = guessDeviceType addr hostname macAddress
             in Some \<lparr> dev_ip = addr,
                       dev_mac = orElse macAddress ''Unknown'',
                       dev_hostname = orElse hostname addr,
                       dev_type = deviceType,
                       dev_status = Online,
                       dev_lastSeen = now env addr,
                       dev_responseTime = orZero (ping_time isAlive) \<rparr>)
          else None)"

section \<open>Sweep Coordinator\<close>

text \<open>The candidate addresses of the loop of lines 70-73.\<close>

definition candidates :: "string \<Rightarrow> string list" where
  "candidates baseIP = map (\<lambda>i. baseIP @ ''.'' @ decimal i) [1..<255]"

text \<open>The values of the fulfilled, non-null results (lines 76-80), in the order of the
  promises.\<close>

fun fulfilledValues :: "'a option list \<Rightarrow> 'a list" where
  "fulfilledValues [] = []"
| "fulfilledValues (None # results) = fulfilledValues results"
| "fulfilledValues (Some v # results) = v # fulfilledValues results"

text \<open>
  \<^verbatim>\<open>scanNetworkARP()\<close>, lines 58-83: \<open>Inl\<close> is the rejection of the promise it returns.
  \<^verbatim>\<open>Promise.allSettled\<close> waits for every \<^verbatim>\<open>scanHost\<close> promise; all of them fulfil.
\<close>

definition scanNetworkARP :: "environment \<Rightarrow> error + device list" where
  "scanNetworkARP env =
     (case getLocalNetwork (networkInterfaces env) of
        None \<Rightarrow> Inl (Error ''Could not determine local network'')
      | Some network \<Rightarrow>
          (case elemAt (split CHR ''/'' (net_networkRange network)) 0 of
             None \<Rightarrow> Inl (Error ''Cannot read properties of undefined'')
           | Some r \<Rightarrow>
               (let baseIP = join ''.'' (take 3 (split CHR ''.'' r));
                    results = map (scanHost env) (candidates baseIP)
                in Inr (fulfilledValues results))))"

section \<open>Device Store\<close>

text \<open>
  \<^verbatim>\<open>devices\<close> is a JavaScript \<^verbatim>\<open>Map\<close>: its entries in insertion order, one for a key.
  \<^verbatim>\<open>set\<close> replaces the value of a key in place and appends a new key at the end.
\<close>

fun Map_set :: "'k \<Rightarrow> 'v \<Rightarrow> ('k \<times> 'v) list \<Rightarrow> ('k \<times> 'v) list" where
  "Map_set k v [] = [(k, v)]"
| "Map_set k v ((k', v') # m) = (if k' = k then (k, v) # m else (k', v') # Map_set k v m)"

fun Map_get :: "('k \<times> 'v) list \<Rightarrow> 'k \<Rightarrow> 'v option" where
  "Map_get [] k = None"
| "Map_get ((k', v') # m) k = (if k' = k then Some v' else Map_get m k)"

definition Map_keys :: "('k \<times> 'v) list \<Rightarrow> 'k list" where
  "Map_keys m = map fst m"

definition Map_values :: "('k \<times> 'v) list \<Rightarrow> 'v list" where
  "Map_values m = map snd m"

text \<open>The two variables of the module, lines 26-27.\<close>

record server =
  devices :: "(string \<times> device) list"
  scanInProgress :: bool

definition initial :: server where
  "initial = \<lparr> devices = [], scanInProgress = False \<rparr>"

text \<open>What a handler sends: the JSON body of an HTTP response with its status code, or
  a call of \<^verbatim>\<open>broadcastUpdate(type, data)\<close>.\<close>

datatype http_body =
  ErrorBody string
| ScanBody bool nat "device list"

datatype ws_message =
  ScanComplete "device list"
| StatusChange string status nat

datatype effect =
  Respond nat http_body
| Broadcast ws_message

text \<open>
  The handler of \<^verbatim>\<open>POST /api/scan\<close>, lines 193-221, runs in two parts, split at the
  \<^verbatim>\<open>await\<close> of line 201. \<open>scanBegin\<close> is the part that runs when the request arrives:
  the test of the flag, and setting it. Other requests and the monitoring timer run
  while the probes are out.
\<close>

definition scanBegin :: "server \<Rightarrow> effect list \<times> server" where
  "scanBegin s =
     (if scanInProgress s then ([Respond 409 (ErrorBody ''Scan already in progress'')], s)
      else ([], s\<lparr>scanInProgress := True\<rparr>))"

text \<open>The loop of lines 204-206.\<close>

definition mergeDevices :: "device list \<Rightarrow> (string \<times> device) list \<Rightarrow> (string \<times> device) list" where
  "mergeDevices discoveredDevices m = foldl (\<lambda>m device. Map_set (dev_ip device) device m) m discoveredDevices"

text \<open>
  \<open>scanEnd\<close> is the part that runs once the promise of \<^verbatim>\<open>scanNetworkARP\<close> has settled
  with \<open>outcome\<close>: the rest of \<^verbatim>\<open>try\<close>, or \<^verbatim>\<open>catch\<close>, and then \<^verbatim>\<open>finally\<close>.
\<close>

definition scanEnd :: "error + device list \<Rightarrow> server \<Rightarrow> effect list \<times> server" where
  "scanEnd outcome s =
     (case outcome of
        Inr discoveredDevices \<Rightarrow>
          (let devs = mergeDevices discoveredDevices (devices s)
           in ([Broadcast (ScanComplete (Map_values devs)),
                Respond 200 (ScanBody True (length discoveredDevices) discoveredDevices)],
               s\<lparr>devices := devs, scanInProgress := False\<rparr>))
      | Inl (Error message) \<Rightarrow>
          ([Respond 500 (ErrorBody message)], s\<lparr>scanInProgress := False\<rparr>))"

section \<open>Liveness Reconciler\<close>

text \<open>The body of the loop after the probe has resolved, lines 300-311: the device as
  it is left, and what is broadcast.\<close>

definition monitorBody :: "string \<Rightarrow> device \<Rightarrow> ping_response \<Rightarrow> nat \<Rightarrow> device \<times> effect list" where
  "monitorBody addr device isAlive date =
     (let oldStatus = dev_status device;
          device1 = device\<lparr>dev_status := (if ping_alive isAlive then Online else Offline)\<rparr>;
          device2 = device1\<lparr>dev_lastSeen := (if ping_alive isAlive then date else dev_lastSeen device1)\<rparr>
      in (device2,
          if oldStatus \<noteq> dev_status device2
          then [Broadcast (StatusChange addr (dev_status device2) (dev_lastSeen device2))]
          else []))"

text \<open>
  The callback of \<^verbatim>\<open>setInterval\<close>, lines 296-313, over the entries of the map: the
  entries as the cycle leaves them, the broadcasts in order, and the rejection that
  ended the cycle, if any. The \<^verbatim>\<open>await\<close> of line 298 is not inside a \<^verbatim>\<open>try\<close>: when
  the probe rejects, the callback stops there. This is the cycle during which nothing
  else runs; an iteration that overlaps a sweep or another cycle is \<open>monitorIteration\<close>
  below.
\<close>

fun monitorLoop ::
  "environment \<Rightarrow> (string \<times> device) list \<Rightarrow> (string \<times> device) list \<times> effect list \<times> error option" where
  "monitorLoop env [] = ([], [], None)"
| "monitorLoop env ((addr, device) # entries) =
     (case probe env addr of
        Inl e \<Rightarrow> ((addr, device) # entries, [], Some e)
      | Inr isAlive \<Rightarrow>
          (case monitorBody addr device isAlive (now env addr) of
             (device', sent) \<Rightarrow>
               (case monitorLoop env entries of
                  (entries', sent', rejection) \<Rightarrow>
                    ((addr, device') # entries', sent @ sent', rejection))))"

definition monitorCycle :: "environment \<Rightarrow> server \<Rightarrow> effect list \<times> server" where
  "monitorCycle env s =
     (case monitorLoop env (devices s) of
        (entries, sent, rejection) \<Rightarrow> (sent, s\<lparr>devices := entries\<rparr>))"

section \<open>Device objects and overlapping operations\<close>

text \<open>
  The map holds references to device objects. The monitoring loop binds the object of an
  entry (line 297), waits for the probe (line 298) and then writes to that object (lines
  300-311). While it waits, other callbacks run: a sweep may settle and merge, and a
  monitoring cycle that a later tick of the timer started may write. For this the
  objects are kept apart from the map: \<open>objects\<close> are the device objects that exist, a
  reference being a position in the list, and \<open>refs\<close> is the map from addresses to
  references.
\<close>

record object_store =
  objects :: "device list"
  refs :: "(string \<times> nat) list"

text \<open>\<^verbatim>\<open>devices.get(addr)\<close>: the object that the map holds for the address.\<close>

definition recordOf :: "object_store \<Rightarrow> string \<Rightarrow> device option" where
  "recordOf st addr =
     (case Map_get (refs st) addr of None \<Rightarrow> None | Some r \<Rightarrow> elemAt (objects st) r)"

text \<open>The map has one entry for an address, and every reference in it is to an object
  that exists.\<close>

definition storeOk :: "object_store \<Rightarrow> bool" where
  "storeOk st =
     (distinct (Map_keys (refs st)) \<and> list_all (\<lambda>(k, r). r < length (objects st)) (refs st))"

text \<open>Line 205 for one device: the object is the new one that \<^verbatim>\<open>scanHost\<close> built.\<close>

definition setFresh :: "device \<Rightarrow> object_store \<Rightarrow> object_store" where
  "setFresh device st =
     \<lparr> objects = objects st @ [device],
       refs = Map_set (dev_ip device) (length (objects st)) (refs st) \<rparr>"

text \<open>The loop of lines 204-206.\<close>

definition mergeFresh :: "device list \<Rightarrow> object_store \<Rightarrow> object_store" where
  "mergeFresh discoveredDevices st = foldl (\<lambda>st device. setFresh device st) st discoveredDevices"

text \<open>
  Lines 300-311 of an iteration that holds the reference \<open>r\<close> for the address \<open>addr\<close>,
  once its probe has resolved with \<open>isAlive\<close>: the object is read and written through the
  reference, whatever the map holds for the address by then. \<open>None\<close> stands for a
  reference to no object, which the loop never holds.
\<close>

definition monitorResume ::
  "nat \<Rightarrow> string \<Rightarrow> ping_response \<Rightarrow> nat \<Rightarrow> object_store \<Rightarrow> (effect list \<times> object_store) option" where
  "monitorResume r addr isAlive date st =
     (case elemAt (objects st) r of
        None \<Rightarrow> None
      | Some device \<Rightarrow>
          (case monitorBody addr device isAlive date of
             (device', sent) \<Rightarrow> Some (sent, st\<lparr>objects := (objects st)[r := device']\<rparr>)))"

text \<open>What may run while an iteration waits for its probe: a sweep settles and merges
  the devices it found, or an iteration of an overlapping cycle resumes.\<close>

datatype overlap =
  SweepMerged "device list"
| CycleResumed nat string ping_response nat

fun runOverlap :: "overlap \<Rightarrow> object_store \<Rightarrow> object_store" where
  "runOverlap (SweepMerged found) st = mergeFresh found st"
| "runOverlap (CycleResumed r addr isAlive date) st =
     (case monitorResume r addr isAlive date st of None \<Rightarrow> st | Some (sent, st') \<Rightarrow> st')"

definition runOverlaps :: "overlap list \<Rightarrow> object_store \<Rightarrow> object_store" where
  "runOverlaps during st = foldl (\<lambda>st ov. runOverlap ov st) st during"

text \<open>
  One iteration of the loop of lines 297-312 whose probe resolves: the iterator of the
  map, which is live, gives the entry at its position \<open>i\<close>, or the loop ends (\<open>None\<close>);
  \<open>during\<close> runs while the probe is awaited; then the body runs on the reference bound
  at the start. The result is what this iteration broadcasts and the store it leaves.
\<close>

definition monitorIteration ::
  "nat \<Rightarrow> overlap list \<Rightarrow> ping_response \<Rightarrow> nat \<Rightarrow> object_store \<Rightarrow> (effect list \<times> object_store) option" where
  "monitorIteration i during isAlive date st =
     (case elemAt (refs st) i of
        None \<Rightarrow> None
      | Some (addr, r) \<Rightarrow> monitorResume r addr isAlive date (runOverlaps during st))"

section \<open>The server as a transition system\<close>

text \<open>
  The operations that write the state, each in the environment of its time: every sweep
  reads the interfaces of the host anew. A monitoring cycle writes either as a whole,
  when nothing else runs during it, or one iteration at a time, to the record that the
  map holds for an address. The other routes read the store.
\<close>

inductive operation :: "environment \<Rightarrow> server \<Rightarrow> server \<Rightarrow> bool" where
  scan_request: "operation env s (snd (scanBegin s))"
| scan_settled: "scanInProgress s \<Longrightarrow> operation env s (snd (scanEnd (scanNetworkARP env) s))"
| monitor_cycle: "operation env s (snd (monitorCycle env s))"
| monitor_write:
    "Map_get (devices s) addr = Some device
     \<Longrightarrow> operation env s
           (s\<lparr>devices := Map_set addr (fst (monitorBody addr device isAlive date)) (devices s)\<rparr>)"

inductive reachable :: "server \<Rightarrow> bool" where
  start: "reachable initial"
| step: "reachable s \<Longrightarrow> operation env s s' \<Longrightarrow> reachable s'"

section \<open>An example network\<close>

text \<open>
  The example of the specification: the host is \<open>192.168.1.23\<close> on \<open>eth0\<close>; of the
  range \<open>192.168.1.0/24\<close> only \<open>.1\<close>, unnamed, and \<open>.50\<close>, named \<open>homeserver\<close>, answer.
  The probe of \<open>.60\<close> rejects; every other address does not answer.
\<close>

definition exampleInterfaces :: "(string \<times> iface list) list" where
  "exampleInterfaces =
     [(''lo'', [\<lparr> iface_address = ''127.0.0.1'', iface_netmask = ''255.0.0.0'',
                 iface_family = ''IPv4'', iface_internal = True \<rparr>]),
      (''eth0'', [\<lparr> iface_address = ''fe80::1'', iface_netmask = ''ffff:ffff:ffff:ffff::'',
                   iface_family = ''IPv6'', iface_internal = False \<rparr>,
                 \<lparr> iface_address = ''192.168.1.23'', iface_netmask = ''255.255.255.0'',
                   iface_family = ''IPv4'', iface_internal = False \<rparr>])]"

definition exampleEnv :: environment where
  "exampleEnv =
     \<lparr> networkInterfaces = exampleInterfaces,
       probe = (\<lambda>a. if a = ''192.168.1.1'' then Inr \<lparr> ping_alive = True, ping_time = Num 2 \<rparr>
                    else if a = ''192.168.1.50'' then Inr \<lparr> ping_alive = True, ping_time = Num 0 \<rparr>
                    else if a = ''192.168.1.60'' then Inl (Error ''spawn ping EAGAIN'')
                    else Inr \<lparr> ping_alive = False, ping_time = Str ''unknown'' \<rparr>),
       arpGetMAC = (\<lambda>a. if a = ''192.168.1.50'' then (False, Some ''aa:bb:cc:dd:ee:ff'')
                        else (True, None)),
       nslookup = (\<lambda>a. if a = ''192.168.1.50''
                       then Inr (''50.1.168.192.in-addr.arpa'' @ [CHR 0x09] @ ''name = homeserver''
                                 @ [CHR 0x0A])
                       else Inl (Error ''Command failed'')),
       now = (\<lambda>a. 1000) \<rparr>"

text \<open>The two records that a sweep of the example network finds.\<close>

definition exampleRouter :: device where
  "exampleRouter =
     \<lparr> dev_ip = ''192.168.1.1'', dev_mac = ''Unknown'', dev_hostname = ''192.168.1.1'',
       dev_type = Router, dev_status = Online, dev_lastSeen = 1000, dev_responseTime = Num 2 \<rparr>"

definition exampleServer :: device where
  "exampleServer =
     \<lparr> dev_ip = ''192.168.1.50'', dev_mac = ''aa:bb:cc:dd:ee:ff'', dev_hostname = ''homeserver'',
       dev_type = Server, dev_status = Online, dev_lastSeen = 1000, dev_responseTime = Num 0 \<rparr>"

text \<open>
  A later monitoring cycle on the same network: the router answers, the server has gone
  down. In \<open>rejectingEnv\<close> the probe of the router rejects instead, as it does when the
  \<^verbatim>\<open>ping\<close> program cannot be started.
\<close>

definition laterEnv :: environment where
  "laterEnv =
     exampleEnv \<lparr> probe := (\<lambda>a. if a = ''192.168.1.1''
                                 then Inr \<lparr> ping_alive = True, ping_time = Num 3 \<rparr>
                                 else Inr \<lparr> ping_alive = False, ping_time = Str ''unknown'' \<rparr>),
                  now := (\<lambda>a. 31000) \<rparr>"

definition rejectingEnv :: environment where
  "rejectingEnv =
     laterEnv \<lparr> probe := (\<lambda>a. if a = ''192.168.1.1'' then Inl (Error ''spawn ping EAGAIN'')
                               else Inr \<lparr> ping_alive = False, ping_time = Str ''unknown'' \<rparr>) \<rparr>"

text \<open>A response of the probe for a host that does not answer.\<close>

definition noAnswer :: ping_response where
  "noAnswer = \<lparr> ping_alive = False, ping_time = Str ''unknown'' \<rparr>"

text \<open>The host has moved to another network, where it is \<open>10.0.0.5\<close> and only \<open>10.0.0.7\<close>
  answers.\<close>

definition movedEnv :: environment where
  "movedEnv =
     exampleEnv \<lparr> networkInterfaces :=
                    [(''wlan0'', [\<lparr> iface_address = ''10.0.0.5'', iface_netmask = ''255.0.0.0'',
                                    iface_family = ''IPv4'', iface_internal = False \<rparr>])],
                  probe := (\<lambda>a. if a = ''10.0.0.7''
                                 then Inr \<lparr> ping_alive = True, ping_time = Num 5 \<rparr>
                                 else Inr noAnswer) \<rparr>"


section \<open>Properties of the string operations\<close>

lemma split_not_Nil: "split sep s \<noteq> []"
  by (induction s) (auto split: list.splits)

lemma split_no_sep: "sep \<notin> set p \<Longrightarrow> split sep p = [p]"
  by (induction p) auto

lemma split_append_sep: "sep \<notin> set p \<Longrightarrow> split sep (p @ sep # s) = p # split sep s"
  by (induction p) auto

lemma startsWith_iff: "startsWith s p \<longleftrightarrow> (\<exists>v. s = p @ v)"
  by (induction s p rule: startsWith.induct) auto

lemma str_includes_iff: "str_includes s p \<longleftrightarrow> (\<exists>u v. s = u @ p @ v)"
proof (induction s)
  case Nil
  then show ?case by auto
next
  case (Cons c s)
  show ?case
  proof
    assume "str_includes (c # s) p"
    then consider "startsWith (c # s) p" | "str_includes s p" by auto
    then show "\<exists>u v. c # s = u @ p @ v"
    proof cases
      case 1
      then obtain v where "c # s = p @ v" using startsWith_iff by blast
      then have "c # s = [] @ p @ v" by simp
      then show ?thesis by blast
    next
      case 2
      then obtain u v where "s = u @ p @ v" using Cons.IH by blast
      then have "c # s = (c # u) @ p @ v" by simp
      then show ?thesis by blast
    qed
  next
    assume "\<exists>u v. c # s = u @ p @ v"
    then obtain u v where uv: "c # s = u @ p @ v" by blast
    show "str_includes (c # s) p"
    proof (cases u)
      case Nil
      then have "startsWith (c # s) p" using uv startsWith_iff by auto
      then show ?thesis by simp
    next
      case (Cons a u')
      then have "s = u' @ p @ v" using uv by simp
      then have "str_includes s p" using Cons.IH by blast
      then show ?thesis by simp
    qed
  qed
qed


lemma digitValue_digit: "k < 10 \<Longrightarrow> digitValue 10 (char_of (48 + k :: nat)) = Some k"
  by (simp add: digitValue_def Let_def)

lemma isDigit_char_of: "k < 10 \<Longrightarrow> isDigit (char_of (48 + k :: nat))"
  by (simp add: isDigit_def)

lemma decimal_digits: "c \<in> set (decimal n) \<Longrightarrow> isDigit c"
proof (induction n rule: decimal.induct)
  case (1 n)
  show ?case
  proof (cases "n < 10")
    case True
    then show ?thesis using "1.prems" by (simp add: decimal.simps [of n] isDigit_char_of)
  next
    case False
    then have "c \<in> set (decimal (n div 10)) \<or> c = char_of (48 + n mod 10)"
      using "1.prems" by (auto simp: decimal.simps [of n])
    then show ?thesis
      using "1.IH" False isDigit_char_of [of "n mod 10"] by auto
  qed
qed

lemma decimal_not_Nil: "decimal n \<noteq> []"
  by (subst decimal.simps) simp

lemma digitsPrefix_decimal:
  "digitsPrefix 10 acc (decimal n @ s) =
     digitsPrefix 10 (Some ((case acc of None \<Rightarrow> 0 | Some a \<Rightarrow> a) * 10 ^ length (decimal n) + n)) s"
proof (induction n arbitrary: acc s rule: decimal.induct)
  case (1 n)
  show ?case
  proof (cases "n < 10")
    case True
    then show ?thesis by (simp add: decimal.simps [of n] digitValue_digit)
  next
    case False
    have "digitsPrefix 10 acc (decimal n @ s) =
          digitsPrefix 10 acc (decimal (n div 10) @ (char_of (48 + n mod 10) # s))"
      using False by (simp add: decimal.simps [of n])
    also have "\<dots> = digitsPrefix 10 (Some ((case acc of None \<Rightarrow> 0 | Some a \<Rightarrow> a) * 10 ^ length (decimal (n div 10)) + n div 10))
                     (char_of (48 + n mod 10) # s)"
      using "1.IH" False by simp
    also have "\<dots> = digitsPrefix 10 (Some ((case acc of None \<Rightarrow> 0 | Some a \<Rightarrow> a) * 10 ^ length (decimal n) + n)) s"
      using False by (simp add: decimal.simps [of n] digitValue_digit algebra_simps)
    finally show ?thesis .
  qed
qed

lemma hd_decimal_digit: "\<exists>c r. decimal n = c # r \<and> isDigit c"
  using decimal_digits [of "hd (decimal n)" n] decimal_not_Nil [of n]
  by (cases "decimal n") auto

lemma decimal_not_0x: "\<not> startsWith (decimal n) ''0x'' \<and> \<not> startsWith (decimal n) ''0X''"
proof (cases "decimal n")
  case Nil
  then show ?thesis by simp
next
  case (Cons c r)
  show ?thesis
  proof (cases r)
    case Nil
    then show ?thesis using Cons by simp
  next
    case (Cons c' r')
    then have "c' \<in> set (decimal n)" using \<open>decimal n = c # r\<close> by simp
    then have "isDigit c'" by (rule decimal_digits)
    then have "c' \<noteq> CHR ''x'' \<and> c' \<noteq> CHR ''X''" by (auto simp: isDigit_def)
    then show ?thesis using Cons \<open>decimal n = c # r\<close> by simp
  qed
qed

lemma parseInt_decimal: "parseInt (Some (decimal n)) = Some (int n)"
proof -
  obtain c r where cr: "decimal n = c # r" "isDigit c" using hd_decimal_digit by blast
  have ws: "\<not> isWhiteSpace c" using cr(2) by (auto simp: isDigit_def isWhiteSpace_def)
  have sg: "c \<noteq> CHR ''-''" "c \<noteq> CHR ''+''" using cr(2) by (auto simp: isDigit_def)
  have dw: "dropWhile isWhiteSpace (toString (Some (decimal n))) = decimal n"
    using cr ws by simp
  have sign: "(case decimal n of
                 c # r \<Rightarrow> (if c = CHR ''-'' then (- 1, r)
                            else if c = CHR ''+'' then (1, r) else (1, decimal n))
               | [] \<Rightarrow> (1, decimal n)) = (1 :: int, decimal n)"
    using cr(1) sg by simp
  have dp: "digitsPrefix 10 None (decimal n) = Some n"
    using digitsPrefix_decimal [of None n "[]"] by simp
  show ?thesis
    unfolding parseInt_def dw Let_def sign
    by (simp add: decimal_not_0x dp)
qed

lemma decimal_inj: "decimal m = decimal n \<Longrightarrow> m = n"
proof -
  assume "decimal m = decimal n"
  then have "parseInt (Some (decimal m)) = parseInt (Some (decimal n))" by simp
  then show "m = n" by (simp add: parseInt_decimal)
qed

lemma decimal_no_dot: "CHR ''.'' \<notin> set (decimal n)" "CHR ''/'' \<notin> set (decimal n)"
  using decimal_digits [of "CHR ''.''" n] decimal_digits [of "CHR ''/''" n]
  by (auto simp: isDigit_def)

section \<open>Classification and network range\<close>

lemma split_dotted:
  assumes "CHR ''.'' \<notin> set a" "CHR ''.'' \<notin> set b" "CHR ''.'' \<notin> set c"
  shows "split CHR ''.'' (a @ ''.'' @ b @ ''.'' @ c @ ''.'' @ d) = a # b # c # split CHR ''.'' d"
  using assms by (simp add: split_append_sep)

lemma nameContains_falsy:
  "\<not> truthy name \<Longrightarrow> w \<noteq> [] \<Longrightarrow> \<not> nameContains name w"
  by (cases name) (auto simp: nameContains_def toLowerCase_def)

lemma nameContains_truthy:
  "truthy name \<Longrightarrow> nameContains name w = str_includes (toLowerCase (the name)) w"
  by (cases name) (auto simp: nameContains_def)

lemma guessDeviceType_classify:
  assumes "parseInt (elemAt (split CHR ''.'' addr) 3) = Some (int n)"
  shows "guessDeviceType addr name mac = classify n name"
proof (cases "truthy name")
  case True
  then show ?thesis
    using assms by (simp add: guessDeviceType_def classify_def Let_def nameContains_truthy)
next
  case False
  then show ?thesis
    using assms by (simp add: guessDeviceType_def classify_def Let_def nameContains_falsy)
qed

lemma lastOctet_dotted:
  assumes "CHR ''.'' \<notin> set a" "CHR ''.'' \<notin> set b" "CHR ''.'' \<notin> set c"
  shows "parseInt (elemAt (split CHR ''.'' (a @ ''.'' @ b @ ''.'' @ c @ ''.'' @ decimal n)) 3) = Some (int n)"
proof -
  have "split CHR ''.'' (decimal n) = [decimal n]"
    using decimal_no_dot(1) by (rule split_no_sep)
  then have "elemAt (split CHR ''.'' (a @ ''.'' @ b @ ''.'' @ c @ ''.'' @ decimal n)) 3 = Some (decimal n)"
    using split_dotted [OF assms, of "decimal n"] by (simp add: numeral_3_eq_3)
  then show ?thesis by (simp add: parseInt_decimal)
qed

text \<open>
  Claim C2, as amended. For a dotted-quad address whose last octet is the decimal
  numeral of \<open>n\<close>, \<^verbatim>\<open>guessDeviceType\<close> is the ordered heuristic of the specification,
  first match wins, whatever the link address. In particular an address ending in
  \<open>.1\<close> is a Router whatever the name; and a name containing "printer" gives Printer
  unless the address ends in \<open>.1\<close> or the name also contains "router", "gateway" or
  "switch", which are tested before it.
\<close>

theorem guessDeviceType_ordered:
  assumes "CHR ''.'' \<notin> set a" "CHR ''.'' \<notin> set b" "CHR ''.'' \<notin> set c"
  shows "guessDeviceType (a @ ''.'' @ b @ ''.'' @ c @ ''.'' @ decimal n) name mac = classify n name
    \<and> (n = 1 \<longrightarrow> guessDeviceType (a @ ''.'' @ b @ ''.'' @ c @ ''.'' @ decimal n) name mac = Router)
    \<and> (n \<noteq> 1 \<and> nameContains name ''printer'' \<and> \<not> nameContains name ''router''
         \<and> \<not> nameContains name ''gateway'' \<and> \<not> nameContains name ''switch''
       \<longrightarrow> guessDeviceType (a @ ''.'' @ b @ ''.'' @ c @ ''.'' @ decimal n) name mac = Printer)"
proof -
  have eq: "guessDeviceType (a @ ''.'' @ b @ ''.'' @ c @ ''.'' @ decimal n) name mac = classify n name"
    using lastOctet_dotted [OF assms] by (rule guessDeviceType_classify)
  show ?thesis unfolding eq by (simp add: classify_def)
qed

text \<open>The office printer at \<open>.1\<close> and at \<open>.20\<close>, the home server at \<open>.50\<close>, an unnamed host
  at \<open>.77\<close>.\<close>

theorem guessDeviceType_ordered_witness:
  "guessDeviceType ''192.168.1.1'' (Some ''Office-Printer'') None = Router
   \<and> guessDeviceType ''192.168.1.20'' (Some ''Office-Printer'') None = Printer
   \<and> guessDeviceType ''192.168.1.50'' (Some ''homeserver'') None = Server
   \<and> guessDeviceType ''192.168.1.77'' None None = Computer"
proof -
  have d: "decimal 1 = ''1''" "decimal 20 = ''20''" "decimal 50 = ''50''" "decimal 77 = ''77''" by code_simp+
  have h: "CHR ''.'' \<notin> set ''192''" "CHR ''.'' \<notin> set ''168''" "CHR ''.'' \<notin> set ''1''" by simp_all
  have p: "nameContains (Some ''Office-Printer'') ''printer''"
     "\<not> nameContains (Some ''Office-Printer'') ''router''"
     "\<not> nameContains (Some ''Office-Printer'') ''gateway''"
     "\<not> nameContains (Some ''Office-Printer'') ''switch''" by code_simp+
  have c: "classify 50 (Some ''homeserver'') = Server" "classify 77 None = Computer" by code_simp+
  have r1: "guessDeviceType ''192.168.1.1'' (Some ''Office-Printer'') None = Router"
    using guessDeviceType_ordered [OF h, of 1 "Some ''Office-Printer''" None, THEN conjunct2, THEN conjunct1]
    unfolding d append_Cons append_Nil by simp
  have r2: "guessDeviceType ''192.168.1.20'' (Some ''Office-Printer'') None = Printer"
    using guessDeviceType_ordered [OF h, of 20 "Some ''Office-Printer''" None, THEN conjunct2, THEN conjunct2] p
    unfolding d append_Cons append_Nil by simp
  have r3: "guessDeviceType ''192.168.1.50'' (Some ''homeserver'') None = Server"
    using guessDeviceType_ordered [OF h, of 50 "Some ''homeserver''" None, THEN conjunct1] c(1)
    unfolding d append_Cons append_Nil by simp
  have r4: "guessDeviceType ''192.168.1.77'' None None = Computer"
    using guessDeviceType_ordered [OF h, of 77 None None, THEN conjunct1] c(2)
    unfolding d append_Cons append_Nil by simp
  show ?thesis using r1 r2 r3 r4 by blast
qed

text \<open>
  Claim C2 as it was stated says that a name containing "printer" gives Printer unless
  the address ends in \<open>.1\<close>. The switch of the printer room, at \<open>.20\<close>, is a Switch.
\<close>

theorem printer_name_counterexample:
  "nameContains (Some ''PrinterRoom-Switch'') ''printer''
   \<and> parseInt (elemAt (split CHR ''.'' ''192.168.1.20'') 3) = Some 20
   \<and> guessDeviceType ''192.168.1.20'' (Some ''PrinterRoom-Switch'') None = Switch
   \<and> guessDeviceType ''192.168.1.20'' (Some ''PrinterRoom-Switch'') None \<noteq> Printer"
  by code_simp

lemma calculateNetworkRange_dotted:
  assumes "CHR ''.'' \<notin> set a" "CHR ''.'' \<notin> set b" "CHR ''.'' \<notin> set c"
  shows "calculateNetworkRange (a @ ''.'' @ b @ ''.'' @ c @ ''.'' @ d) netmask
           = a @ ''.'' @ b @ ''.'' @ c @ ''.0/24''"
  using split_dotted [OF assms, of d]
  by (simp add: calculateNetworkRange_def Let_def numeral_2_eq_2)

text \<open>
  Claim C9. For a dotted-quad address, the derived range is its first three octets
  followed by \<open>.0/24\<close>, and it is the same for every netmask: the netmask is not read.
\<close>

theorem calculateNetworkRange_first_three:
  assumes "CHR ''.'' \<notin> set a" "CHR ''.'' \<notin> set b" "CHR ''.'' \<notin> set c"
  shows "calculateNetworkRange (a @ ''.'' @ b @ ''.'' @ c @ ''.'' @ d) netmask
           = a @ ''.'' @ b @ ''.'' @ c @ ''.0/24''
         \<and> calculateNetworkRange (a @ ''.'' @ b @ ''.'' @ c @ ''.'' @ d) netmask
           = calculateNetworkRange (a @ ''.'' @ b @ ''.'' @ c @ ''.'' @ d) netmask'"
  using calculateNetworkRange_dotted [OF assms] by simp

text \<open>The range of \<open>10.20.30.40\<close> is \<open>10.20.30.0/24\<close> under a /16 mask as under a /24 mask.\<close>

theorem calculateNetworkRange_first_three_witness:
  "calculateNetworkRange ''10.20.30.40'' ''255.255.0.0'' = ''10.20.30.0/24''
   \<and> calculateNetworkRange ''10.20.30.40'' ''255.255.0.0''
     = calculateNetworkRange ''10.20.30.40'' ''255.255.255.0''"
proof -
  have h: "CHR ''.'' \<notin> set ''10''" "CHR ''.'' \<notin> set ''20''" "CHR ''.'' \<notin> set ''30''" by simp_all
  show ?thesis
    using calculateNetworkRange_first_three [OF h, of "''40''" "''255.255.0.0''" "''255.255.255.0''"]
    unfolding append_Cons append_Nil .
qed

text \<open>
  Claim C10. Two calls of \<^verbatim>\<open>guessDeviceType\<close> that differ only in the link address
  return the same class: the vendor prefix is computed and not used.
\<close>

theorem guessDeviceType_ignores_mac:
  "guessDeviceType addr name mac = guessDeviceType addr name mac'"
  by (simp add: guessDeviceType_def Let_def)

section \<open>Properties of the device store\<close>

lemma Map_get_set_same: "Map_get (Map_set k v m) k = Some v"
  by (induction m) auto

lemma Map_get_set_other: "k' \<noteq> k \<Longrightarrow> Map_get (Map_set k v m) k' = Map_get m k'"
  by (induction m) auto

lemma Map_get_None_iff: "Map_get m k = None \<longleftrightarrow> k \<notin> set (Map_keys m)"
  by (induction m) (auto simp: Map_keys_def split: if_splits)

lemma Map_keys_set_new: "Map_get m k = None \<Longrightarrow> Map_keys (Map_set k v m) = Map_keys m @ [k]"
  by (induction m) (auto simp: Map_keys_def split: if_splits)

lemma Map_keys_set_known: "Map_get m k \<noteq> None \<Longrightarrow> Map_keys (Map_set k v m) = Map_keys m"
  by (induction m) (auto simp: Map_keys_def split: if_splits)

lemma Map_keys_Cons: "Map_keys ((k, v) # m) = k # Map_keys m"
  by (simp add: Map_keys_def)

lemma set_Map_keys_set: "set (Map_keys (Map_set k v m)) = insert k (set (Map_keys m))"
proof (induction m)
  case Nil
  show ?case by (simp add: Map_keys_def)
next
  case (Cons p m)
  obtain k' v' where p: "p = (k', v')" by (cases p)
  show ?case using Cons.IH unfolding p by (cases "k' = k") (auto simp: Map_keys_Cons)
qed

lemma distinct_Map_set: "distinct (Map_keys m) \<Longrightarrow> distinct (Map_keys (Map_set k v m))"
proof (induction m)
  case Nil
  show ?case by (simp add: Map_keys_def)
next
  case (Cons p m)
  obtain k' v' where p: "p = (k', v')" by (cases p)
  show ?case using Cons unfolding p
    by (cases "k' = k") (auto simp: Map_keys_Cons set_Map_keys_set)
qed

lemma mergeDevices_Nil: "mergeDevices [] m = m"
  by (simp add: mergeDevices_def)

lemma mergeDevices_Cons: "mergeDevices (d # ds) m = mergeDevices ds (Map_set (dev_ip d) d m)"
  by (simp add: mergeDevices_def)

lemma set_Map_keys_merge: "set (Map_keys (mergeDevices ds m)) = set (Map_keys m) \<union> dev_ip ` set ds"
  by (induction ds arbitrary: m) (auto simp: mergeDevices_Nil mergeDevices_Cons set_Map_keys_set)

lemma distinct_mergeDevices: "distinct (Map_keys m) \<Longrightarrow> distinct (Map_keys (mergeDevices ds m))"
  by (induction ds arbitrary: m) (auto simp: mergeDevices_Nil mergeDevices_Cons distinct_Map_set)

lemma scanHost_Some:
  assumes "scanHost env addr = Some d"
  shows "\<exists>r. probe env addr = Inr r \<and> ping_alive r \<and>
           d = \<lparr> dev_ip = addr,
                 dev_mac = orElse (getMacAddress env addr) ''Unknown'',
                 dev_hostname = orElse (getHostname env addr) addr,
                 dev_type = guessDeviceType addr (getHostname env addr) (getMacAddress env addr),
                 dev_status = Online,
                 dev_lastSeen = now env addr,
                 dev_responseTime = orZero (ping_time r) \<rparr>"
  using assms by (auto simp: scanHost_def Let_def split: sum.splits if_splits)

lemma scanHost_Some_iff:
  "(\<exists>d. scanHost env addr = Some d) \<longleftrightarrow> (\<exists>r. probe env addr = Inr r \<and> ping_alive r)"
  by (auto simp: scanHost_def Let_def split: sum.splits if_splits)

text \<open>
  Claim C5. Merging one successful probe result: the record takes every field from
  this probe, with status online, and it is the record of its address afterwards. When
  the address was unknown, exactly one key is added, at the end; when it was known, the
  keys stay as they were. The record of every other address is unchanged, and no record
  is deleted.
\<close>

theorem merge_one_result:
  assumes "scanHost env addr = Some d"
  shows "dev_ip d = addr \<and> dev_status d = Online
    \<and> dev_mac d = orElse (getMacAddress env addr) ''Unknown''
    \<and> dev_hostname d = orElse (getHostname env addr) addr
    \<and> dev_type d = guessDeviceType addr (getHostname env addr) (getMacAddress env addr)
    \<and> dev_lastSeen d = now env addr
    \<and> (\<exists>r. probe env addr = Inr r \<and> ping_alive r \<and> dev_responseTime d = orZero (ping_time r))
    \<and> Map_get (mergeDevices [d] m) addr = Some d
    \<and> (Map_get m addr = None \<longrightarrow> Map_keys (mergeDevices [d] m) = Map_keys m @ [addr])
    \<and> (Map_get m addr \<noteq> None \<longrightarrow> Map_keys (mergeDevices [d] m) = Map_keys m)
    \<and> (\<forall>k. k \<noteq> addr \<longrightarrow> Map_get (mergeDevices [d] m) k = Map_get m k)
    \<and> (\<forall>k. Map_get m k \<noteq> None \<longrightarrow> Map_get (mergeDevices [d] m) k \<noteq> None)"
proof -
  obtain r where r: "probe env addr = Inr r" "ping_alive r"
    and d: "d = \<lparr> dev_ip = addr,
                 dev_mac = orElse (getMacAddress env addr) ''Unknown'',
                 dev_hostname = orElse (getHostname env addr) addr,
                 dev_type = guessDeviceType addr (getHostname env addr) (getMacAddress env addr),
                 dev_status = Online,
                 dev_lastSeen = now env addr,
                 dev_responseTime = orZero (ping_time r) \<rparr>"
    using scanHost_Some [OF assms] by blast
  have ip: "dev_ip d = addr" using d by simp
  have m: "mergeDevices [d] m = Map_set addr d m"
    by (simp add: mergeDevices_Cons mergeDevices_Nil ip)
  have keep: "Map_get (Map_set addr d m) k \<noteq> None" if "Map_get m k \<noteq> None" for k
    using that by (cases "k = addr") (simp_all add: Map_get_set_same Map_get_set_other)
  have fields: "dev_status d = Online"
      "dev_mac d = orElse (getMacAddress env addr) ''Unknown''"
      "dev_hostname d = orElse (getHostname env addr) addr"
      "dev_type d = guessDeviceType addr (getHostname env addr) (getMacAddress env addr)"
      "dev_lastSeen d = now env addr"
      "dev_responseTime d = orZero (ping_time r)"
    using d by simp_all
  show ?thesis
    unfolding m
    using ip fields r keep
    by (auto simp: Map_get_set_same Map_get_set_other Map_keys_set_new Map_keys_set_known)
qed

text \<open>
  The home server is found while the store holds the router only.
\<close>

theorem merge_one_result_witness:
  "scanHost exampleEnv ''192.168.1.50'' = Some exampleServer
   \<and> Map_keys (mergeDevices [exampleServer] [(''192.168.1.1'', exampleRouter)])
       = [''192.168.1.1'', ''192.168.1.50'']
   \<and> Map_get (mergeDevices [exampleServer] [(''192.168.1.1'', exampleRouter)]) ''192.168.1.50''
       = Some exampleServer
   \<and> Map_get (mergeDevices [exampleServer] [(''192.168.1.1'', exampleRouter)]) ''192.168.1.1''
       = Some exampleRouter
   \<and> dev_status exampleServer = Online"
proof -
  have h: "scanHost exampleEnv ''192.168.1.50'' = Some exampleServer" by code_simp
  have n: "Map_get [(''192.168.1.1'', exampleRouter)] ''192.168.1.50'' = None" by simp
  have k: "Map_keys [(''192.168.1.1'', exampleRouter)] = [''192.168.1.1'']" by (simp add: Map_keys_def)
  have o: "Map_get [(''192.168.1.1'', exampleRouter)] ''192.168.1.1'' = Some exampleRouter" by simp
  have ne: "''192.168.1.1'' \<noteq> ''192.168.1.50''" by simp
  show ?thesis
    using h n k o ne merge_one_result [OF h, of "[(''192.168.1.1'', exampleRouter)]"]
    by simp
qed

section \<open>Properties of the sweep\<close>

text \<open>
  Claim C1. A scan request that arrives while the flag is set is answered at once with
  status 409; nothing is started, and the server state, the device store with it, is
  unchanged.
\<close>

theorem scanBegin_conflict:
  assumes "scanInProgress s"
  shows "scanBegin s = ([Respond 409 (ErrorBody ''Scan already in progress'')], s)
         \<and> devices (snd (scanBegin s)) = devices s"
  using assms by (simp add: scanBegin_def)

text \<open>
  A second request while the first sweep of the initial server is out.
\<close>

theorem scanBegin_conflict_witness:
  "scanInProgress (snd (scanBegin initial))
   \<and> scanBegin (snd (scanBegin initial))
       = ([Respond 409 (ErrorBody ''Scan already in progress'')], snd (scanBegin initial))
   \<and> devices (snd (scanBegin (snd (scanBegin initial)))) = []"
proof -
  have h: "scanInProgress (snd (scanBegin initial))"
    by (simp add: scanBegin_def initial_def)
  have d: "devices (snd (scanBegin initial)) = []"
    by (simp add: scanBegin_def initial_def)
  show ?thesis using h d scanBegin_conflict [OF h] by simp
qed

text \<open>
  Claim C6. A request that finds the flag clear sets it; whatever the outcome of the
  sweep, a rejection with any error included, and whatever state the server is in when
  the sweep settles, the flag is clear afterwards and the next request is not refused.
\<close>

theorem scan_flag_cleared:
  assumes "\<not> scanInProgress s"
  shows "scanInProgress (snd (scanBegin s))
    \<and> \<not> scanInProgress (snd (scanEnd outcome s'))
    \<and> fst (scanBegin (snd (scanEnd outcome s'))) = []"
  using assms
  by (auto simp: scanBegin_def scanEnd_def Let_def split: sum.splits error.splits)

text \<open>
  On a host with no interface the sweep rejects, and the flag is clear again.
\<close>

theorem scan_flag_cleared_witness:
  "\<not> scanInProgress initial
   \<and> scanInProgress (snd (scanBegin initial))
   \<and> scanNetworkARP (exampleEnv\<lparr>networkInterfaces := []\<rparr>)
       = Inl (Error ''Could not determine local network'')
   \<and> \<not> scanInProgress (snd (scanEnd (scanNetworkARP (exampleEnv\<lparr>networkInterfaces := []\<rparr>))
                                    (snd (scanBegin initial))))
   \<and> fst (scanBegin (snd (scanEnd (scanNetworkARP (exampleEnv\<lparr>networkInterfaces := []\<rparr>))
                                   (snd (scanBegin initial))))) = []"
proof -
  have h: "\<not> scanInProgress initial" by (simp add: initial_def)
  have e: "scanNetworkARP (exampleEnv\<lparr>networkInterfaces := []\<rparr>)
       = Inl (Error ''Could not determine local network'')"
    by (simp add: scanNetworkARP_def)
  show ?thesis
    using h e scan_flag_cleared [OF h, of "scanNetworkARP (exampleEnv\<lparr>networkInterfaces := []\<rparr>)" "snd (scanBegin initial)"]
    by simp
qed

lemma firstIPv4_range:
  "firstIPv4 is = Some nw \<Longrightarrow> net_networkRange nw = calculateNetworkRange (net_ip nw) (net_netmask nw)"
  by (induction "is") (auto split: if_splits)

lemma getLocalNetwork_range:
  "getLocalNetwork ifs = Some nw \<Longrightarrow> net_networkRange nw = calculateNetworkRange (net_ip nw) (net_netmask nw)"
proof (induction ifs)
  case Nil
  then show ?case by simp
next
  case (Cons p ifs)
  obtain name "is" where p: "p = (name, is)" by (cases p)
  show ?case using Cons unfolding p by (auto split: option.splits dest: firstIPv4_range)
qed

lemma baseIP_dotted:
  assumes dots: "CHR ''.'' \<notin> set a" "CHR ''.'' \<notin> set b" "CHR ''.'' \<notin> set c"
    and slashes: "CHR ''/'' \<notin> set a" "CHR ''/'' \<notin> set b" "CHR ''/'' \<notin> set c"
  shows "elemAt (split CHR ''/'' (a @ ''.'' @ b @ ''.'' @ c @ ''.0/24'')) 0 = Some (a @ ''.'' @ b @ ''.'' @ c @ ''.0'')"
    and "join ''.'' (take 3 (split CHR ''.'' (a @ ''.'' @ b @ ''.'' @ c @ ''.0''))) = a @ ''.'' @ b @ ''.'' @ c"
proof -
  have "CHR ''/'' \<notin> set (a @ ''.'' @ b @ ''.'' @ c @ ''.0'')" using slashes by simp
  then have "split CHR ''/'' ((a @ ''.'' @ b @ ''.'' @ c @ ''.0'') @ CHR ''/'' # ''24'')
              = (a @ ''.'' @ b @ ''.'' @ c @ ''.0'') # split CHR ''/'' ''24''"
    by (rule split_append_sep)
  then show "elemAt (split CHR ''/'' (a @ ''.'' @ b @ ''.'' @ c @ ''.0/24'')) 0 = Some (a @ ''.'' @ b @ ''.'' @ c @ ''.0'')"
    by simp
  have "split CHR ''.'' (a @ ''.'' @ b @ ''.'' @ c @ ''.'' @ ''0'') = a # b # c # split CHR ''.'' ''0''"
    using dots by (rule split_dotted)
  then show "join ''.'' (take 3 (split CHR ''.'' (a @ ''.'' @ b @ ''.'' @ c @ ''.0''))) = a @ ''.'' @ b @ ''.'' @ c"
    by (simp add: numeral_3_eq_3)
qed

lemma scanNetworkARP_dotted:
  assumes "getLocalNetwork (networkInterfaces env) = Some nw"
    and "net_ip nw = a @ ''.'' @ b @ ''.'' @ c @ ''.'' @ d"
    and dots: "CHR ''.'' \<notin> set a" "CHR ''.'' \<notin> set b" "CHR ''.'' \<notin> set c"
    and slashes: "CHR ''/'' \<notin> set a" "CHR ''/'' \<notin> set b" "CHR ''/'' \<notin> set c"
  shows "scanNetworkARP env
           = Inr (fulfilledValues (map (scanHost env) (candidates (a @ ''.'' @ b @ ''.'' @ c))))"
proof -
  have r: "net_networkRange nw = a @ ''.'' @ b @ ''.'' @ c @ ''.0/24''"
    using getLocalNetwork_range [OF assms(1)] assms(2)
      calculateNetworkRange_dotted [OF dots, of d "net_netmask nw"]
    by simp
  have e: "elemAt (split CHR ''/'' (net_networkRange nw)) 0 = Some (a @ ''.'' @ b @ ''.'' @ c @ ''.0'')"
    unfolding r by (rule baseIP_dotted(1) [OF dots slashes])
  show ?thesis
    unfolding scanNetworkARP_def assms(1)
    by (simp only: option.case e Let_def baseIP_dotted(2) [OF dots slashes])
qed

lemma set_fulfilledValues: "set (fulfilledValues rs) = {v. Some v \<in> set rs}"
  by (induction rs rule: fulfilledValues.induct) auto

lemma found_iff:
  "d \<in> set (fulfilledValues (map (scanHost env) cs)) \<longleftrightarrow> (\<exists>a \<in> set cs. scanHost env a = Some d)"
  by (force simp: set_fulfilledValues)

lemma candidates_set:
  "set (candidates base) = {base @ ''.'' @ decimal i | i. 1 \<le> i \<and> i \<le> 254}"
  by (auto simp: candidates_def)

lemma candidates_distinct: "distinct (candidates base)"
  unfolding candidates_def by (simp add: distinct_map inj_on_def decimal_inj)

lemma candidates_length: "length (candidates base) = 254"
  by (simp add: candidates_def)

lemma found_in_range:
  assumes "d \<in> set (fulfilledValues (map (scanHost env) (candidates base)))"
  shows "\<exists>i. 1 \<le> i \<and> i \<le> 254 \<and> dev_ip d = base @ ''.'' @ decimal i"
proof -
  obtain a where a: "a \<in> set (candidates base)" "scanHost env a = Some d"
    using assms found_iff by blast
  have "dev_ip d = a" using scanHost_Some [OF a(2)] by auto
  then show ?thesis using a(1) candidates_set by auto
qed

lemma Map_get_merge_other:
  "k \<notin> dev_ip ` set ds \<Longrightarrow> Map_get (mergeDevices ds m) k = Map_get m k"
  by (induction ds arbitrary: m) (auto simp: mergeDevices_Nil mergeDevices_Cons Map_get_set_other)

lemma Map_get_merge_found:
  "distinct (map dev_ip ds) \<Longrightarrow> d \<in> set ds \<Longrightarrow> Map_get (mergeDevices ds m) (dev_ip d) = Some d"
proof (induction ds arbitrary: m)
  case Nil
  then show ?case by simp
next
  case (Cons x ds)
  show ?case
  proof (cases "d = x")
    case True
    have "dev_ip x \<notin> dev_ip ` set ds" using Cons.prems(1) by simp
    then show ?thesis
      unfolding True mergeDevices_Cons by (simp add: Map_get_merge_other Map_get_set_same)
  next
    case False
    then have "d \<in> set ds" using Cons.prems(2) by simp
    then show ?thesis
      unfolding mergeDevices_Cons using Cons.IH Cons.prems(1) by simp
  qed
qed

lemma found_addresses:
  "map dev_ip (fulfilledValues (map (scanHost env) cs)) = filter (\<lambda>a. scanHost env a \<noteq> None) cs"
proof (induction cs)
  case Nil
  show ?case by simp
next
  case (Cons a cs)
  show ?case
  proof (cases "scanHost env a")
    case None
    then show ?thesis using Cons.IH by simp
  next
    case (Some d)
    have "dev_ip d = a" using scanHost_Some [OF Some] by auto
    then show ?thesis using Cons.IH Some by simp
  qed
qed

lemma found_online:
  "d \<in> set (fulfilledValues (map (scanHost env) cs)) \<Longrightarrow> dev_status d = Online"
proof -
  assume "d \<in> set (fulfilledValues (map (scanHost env) cs))"
  then obtain a where "scanHost env a = Some d" using found_iff by blast
  then show ?thesis using scanHost_Some by fastforce
qed

lemma found_address_iff:
  assumes "a \<in> set cs"
  shows "(\<exists>dev \<in> set (fulfilledValues (map (scanHost env) cs)). dev_ip dev = a)
           \<longleftrightarrow> (\<exists>r. probe env a = Inr r \<and> ping_alive r)"
proof -
  have "(\<exists>dev \<in> set (fulfilledValues (map (scanHost env) cs)). dev_ip dev = a)
          \<longleftrightarrow> a \<in> set (map dev_ip (fulfilledValues (map (scanHost env) cs)))"
    by auto
  also have "\<dots> \<longleftrightarrow> scanHost env a \<noteq> None"
    unfolding found_addresses using assms by simp
  also have "\<dots> \<longleftrightarrow> (\<exists>r. probe env a = Inr r \<and> ping_alive r)"
    using scanHost_Some_iff [of env a] by auto
  finally show ?thesis .
qed

text \<open>
  Claim C4. On a host whose address is a dotted quad, a sweep probes the addresses
  with the first three octets of the host and the last octets 1 to 254, each once. An
  address is among the devices found exactly when its own probe resolved alive, whatever
  the other probes did, and every device found is online. The start of the request
  writes nothing but the flag; the part that runs once all probes have settled merges the
  devices found, so that each is the record of its address and every other record is
  as before, broadcasts the values of the store, and responds with the number and the
  list of the devices found.
\<close>

theorem sweep_settles_then_merges:
  assumes "getLocalNetwork (networkInterfaces env) = Some nw"
    and "net_ip nw = a @ ''.'' @ b @ ''.'' @ c @ ''.'' @ d"
    and dots: "CHR ''.'' \<notin> set a" "CHR ''.'' \<notin> set b" "CHR ''.'' \<notin> set c"
    and slashes: "CHR ''/'' \<notin> set a" "CHR ''/'' \<notin> set b" "CHR ''/'' \<notin> set c"
  shows "\<exists>found.
      scanNetworkARP env = Inr found
    \<and> found = fulfilledValues (map (scanHost env)
                 (map (\<lambda>i. a @ ''.'' @ b @ ''.'' @ c @ ''.'' @ decimal i) [1..<255]))
    \<and> distinct (map (\<lambda>i. a @ ''.'' @ b @ ''.'' @ c @ ''.'' @ decimal i) [1..<255])
    \<and> (\<forall>i. 1 \<le> i \<and> i \<le> 254 \<longrightarrow>
          ((\<exists>dev \<in> set found. dev_ip dev = a @ ''.'' @ b @ ''.'' @ c @ ''.'' @ decimal i)
             \<longleftrightarrow> (\<exists>r. probe env (a @ ''.'' @ b @ ''.'' @ c @ ''.'' @ decimal i) = Inr r \<and> ping_alive r)))
    \<and> (\<forall>dev \<in> set found. dev_status dev = Online)
    \<and> (\<not> scanInProgress s \<longrightarrow> scanBegin s = ([], s\<lparr>scanInProgress := True\<rparr>))
    \<and> scanEnd (Inr found) s'
        = ([Broadcast (ScanComplete (Map_values (mergeDevices found (devices s')))),
            Respond 200 (ScanBody True (length found) found)],
           s'\<lparr>devices := mergeDevices found (devices s'), scanInProgress := False\<rparr>)
    \<and> (\<forall>dev \<in> set found. Map_get (mergeDevices found (devices s')) (dev_ip dev) = Some dev)
    \<and> (\<forall>k. k \<notin> dev_ip ` set found
          \<longrightarrow> Map_get (mergeDevices found (devices s')) k = Map_get (devices s') k)"
proof -
  let ?base = "a @ ''.'' @ b @ ''.'' @ c"
  let ?found = "fulfilledValues (map (scanHost env) (candidates ?base))"
  have cs: "candidates ?base = map (\<lambda>i. a @ ''.'' @ b @ ''.'' @ c @ ''.'' @ decimal i) [1..<255]"
    by (simp add: candidates_def)
  have sw: "scanNetworkARP env = Inr ?found"
    using assms by (rule scanNetworkARP_dotted)
  have di: "distinct (candidates ?base)" by (rule candidates_distinct)
  have each: "(\<exists>dev \<in> set ?found. dev_ip dev = ?base @ ''.'' @ decimal i)
             \<longleftrightarrow> (\<exists>r. probe env (?base @ ''.'' @ decimal i) = Inr r \<and> ping_alive r)"
    if "1 \<le> i \<and> i \<le> 254" for i
  proof -
    have "?base @ ''.'' @ decimal i \<in> set (candidates ?base)"
      using that candidates_set by blast
    then show ?thesis by (rule found_address_iff)
  qed
  have on: "\<forall>dev \<in> set ?found. dev_status dev = Online"
    using found_online by blast
  have bg: "\<not> scanInProgress s \<longrightarrow> scanBegin s = ([], s\<lparr>scanInProgress := True\<rparr>)"
    by (simp add: scanBegin_def)
  have en: "scanEnd (Inr ?found) s'
        = ([Broadcast (ScanComplete (Map_values (mergeDevices ?found (devices s')))),
            Respond 200 (ScanBody True (length ?found) ?found)],
           s'\<lparr>devices := mergeDevices ?found (devices s'), scanInProgress := False\<rparr>)"
    by (simp add: scanEnd_def Let_def)
  have "distinct (map dev_ip ?found)"
    unfolding found_addresses using di by simp
  then have mg: "\<forall>dev \<in> set ?found. Map_get (mergeDevices ?found (devices s')) (dev_ip dev) = Some dev"
    using Map_get_merge_found by blast
  have ot: "\<forall>k. k \<notin> dev_ip ` set ?found
          \<longrightarrow> Map_get (mergeDevices ?found (devices s')) k = Map_get (devices s') k"
    using Map_get_merge_other by blast
  have each': "\<forall>i. 1 \<le> i \<and> i \<le> 254 \<longrightarrow>
          ((\<exists>dev \<in> set ?found. dev_ip dev = a @ ''.'' @ b @ ''.'' @ c @ ''.'' @ decimal i)
             \<longleftrightarrow> (\<exists>r. probe env (a @ ''.'' @ b @ ''.'' @ c @ ''.'' @ decimal i) = Inr r \<and> ping_alive r))"
    using each by simp
  show ?thesis
    apply (rule exI [of _ ?found])
    using sw di on bg en mg ot each' unfolding cs by blast
qed

text \<open>The example network, and its sweep.\<close>

lemma example_network:
  "getLocalNetwork (networkInterfaces exampleEnv)
     = Some \<lparr> net_ip = ''192.168.1.23'', net_netmask = ''255.255.255.0'',
              net_networkRange = ''192.168.1.0/24'' \<rparr>"
  by code_simp

lemma example_sweep: "scanNetworkARP exampleEnv = Inr [exampleRouter, exampleServer]"
  by code_simp

lemma example_octets:
  "CHR ''.'' \<notin> set ''192''" "CHR ''.'' \<notin> set ''168''" "CHR ''.'' \<notin> set ''1''"
  "CHR ''/'' \<notin> set ''192''" "CHR ''/'' \<notin> set ''168''" "CHR ''/'' \<notin> set ''1''"
  by simp_all

lemma example_address: 
  "net_ip \<lparr> net_ip = ''192.168.1.23'', net_netmask = ''255.255.255.0'',
              net_networkRange = ''192.168.1.0/24'' \<rparr> = ''192'' @ ''.'' @ ''168'' @ ''.'' @ ''1'' @ ''.'' @ ''23''"
  by simp

text \<open>
  The sweep of the example network from the initial server: the probe of \<open>.60\<close>
  rejects, and the two hosts that answer are found.
\<close>

theorem sweep_settles_then_merges_witness:
  "scanNetworkARP exampleEnv = Inr [exampleRouter, exampleServer]
   \<and> \<not> (\<exists>r. probe exampleEnv ''192.168.1.60'' = Inr r)
   \<and> scanBegin initial = ([], initial\<lparr>scanInProgress := True\<rparr>)
   \<and> scanEnd (Inr [exampleRouter, exampleServer]) (initial\<lparr>scanInProgress := True\<rparr>)
       = ([Broadcast (ScanComplete [exampleRouter, exampleServer]),
           Respond 200 (ScanBody True 2 [exampleRouter, exampleServer])],
          \<lparr> devices = [(''192.168.1.1'', exampleRouter), (''192.168.1.50'', exampleServer)],
            scanInProgress = False \<rparr>)"
proof -
  obtain found where f: "scanNetworkARP exampleEnv = Inr found"
    and b: "\<not> scanInProgress initial \<longrightarrow> scanBegin initial = ([], initial\<lparr>scanInProgress := True\<rparr>)"
    and e: "scanEnd (Inr found) (initial\<lparr>scanInProgress := True\<rparr>)
        = ([Broadcast (ScanComplete (Map_values (mergeDevices found (devices (initial\<lparr>scanInProgress := True\<rparr>))))),
            Respond 200 (ScanBody True (length found) found)],
           initial\<lparr>scanInProgress := True, devices := mergeDevices found (devices (initial\<lparr>scanInProgress := True\<rparr>)), scanInProgress := False\<rparr>)"
    using sweep_settles_then_merges [OF example_network example_address example_octets, of initial "initial\<lparr>scanInProgress := True\<rparr>"]
    by blast
  have fd: "found = [exampleRouter, exampleServer]" using f example_sweep by simp
  have m: "mergeDevices [exampleRouter, exampleServer] [] = [(''192.168.1.1'', exampleRouter), (''192.168.1.50'', exampleServer)]"
    by (simp add: mergeDevices_def exampleRouter_def exampleServer_def)
  have p: "\<not> (\<exists>r. probe exampleEnv ''192.168.1.60'' = Inr r)"
    by (simp add: exampleEnv_def)
  have i: "\<not> scanInProgress initial" by (simp add: initial_def)
  show ?thesis
    using e b i p example_sweep unfolding fd
    by (simp add: m initial_def Map_values_def)
qed

section \<open>Properties of the monitoring cycle\<close>



lemma monitorLoop_keys: "Map_keys (fst (monitorLoop env es)) = Map_keys es"
proof (induction es)
  case Nil
  show ?case by (simp add: Map_keys_def)
next
  case (Cons p es)
  obtain k d where p: "p = (k, d)" by (cases p)
  show ?case using Cons.IH unfolding p
    by (auto simp: Map_keys_def split: sum.splits prod.splits)
qed

text \<open>
  Claim C7 fails on the program. When the probe of the router rejects, the cycle ends
  there: the server, which no longer answers, is not probed and stays online, and
  nothing is broadcast. A cycle over the server alone marks it offline.
\<close>

theorem monitor_stops_at_rejection:
  "monitorLoop rejectingEnv [(''192.168.1.1'', exampleRouter), (''192.168.1.50'', exampleServer)]
     = ([(''192.168.1.1'', exampleRouter), (''192.168.1.50'', exampleServer)], [],
        Some (Error ''spawn ping EAGAIN''))
   \<and> monitorLoop rejectingEnv [(''192.168.1.50'', exampleServer)]
     = ([(''192.168.1.50'', exampleServer\<lparr>dev_status := Offline\<rparr>)],
        [Broadcast (StatusChange ''192.168.1.50'' Offline 1000)], None)"
  by (simp add: rejectingEnv_def monitorBody_def exampleRouter_def exampleServer_def)

section \<open>Properties of an iteration that overlaps other operations\<close>

lemma elemAt_Some_iff: "elemAt xs i = Some x \<longleftrightarrow> (i < length xs \<and> xs ! i = x)"
proof (induction xs arbitrary: i)
  case Nil
  show ?case by simp
next
  case (Cons y ys)
  show ?case using Cons.IH by (cases i) auto
qed



lemma Map_set_member: "(k', v') \<in> set (Map_set k v m) \<Longrightarrow> (k', v') = (k, v) \<or> (k', v') \<in> set m"
  by (induction m) (auto split: if_splits)

lemma storeOk_setFresh: "storeOk st \<Longrightarrow> storeOk (setFresh d st)"
proof -
  assume ok: "storeOk st"
  have "r < Suc (length (objects st))"
    if "(k, r) \<in> set (Map_set (dev_ip d) (length (objects st)) (refs st))" for k r
    using Map_set_member [OF that] ok by (auto simp: storeOk_def list_all_iff)
  then show ?thesis
    using ok by (auto simp: storeOk_def setFresh_def distinct_Map_set list_all_iff)
qed


lemma mergeFresh_Nil: "mergeFresh [] st = st"
  by (simp add: mergeFresh_def)

lemma mergeFresh_Cons: "mergeFresh (d # ds) st = mergeFresh ds (setFresh d st)"
  by (simp add: mergeFresh_def)

lemma storeOk_mergeFresh: "storeOk st \<Longrightarrow> storeOk (mergeFresh ds st)"
  by (induction ds arbitrary: st) (auto simp: mergeFresh_Nil mergeFresh_Cons storeOk_setFresh)



lemma monitorResume_refs:
  "monitorResume r addr isAlive date st = Some (sent, st') \<Longrightarrow> refs st' = refs st"
  by (auto simp: monitorResume_def split: option.splits prod.splits)

lemma monitorResume_length:
  "monitorResume r addr isAlive date st = Some (sent, st') \<Longrightarrow> length (objects st') = length (objects st)"
  by (auto simp: monitorResume_def split: option.splits prod.splits)

lemma storeOk_runOverlap: "storeOk st \<Longrightarrow> storeOk (runOverlap ov st)"
proof (cases ov)
  case (SweepMerged found)
  assume "storeOk st"
  then show ?thesis unfolding SweepMerged by (simp add: storeOk_mergeFresh)
next
  case (CycleResumed r addr isAlive date)
  assume ok: "storeOk st"
  show ?thesis
  proof (cases "monitorResume r addr isAlive date st")
    case None
    then show ?thesis unfolding CycleResumed using ok by simp
  next
    case (Some p)
    obtain sent st' where p: "p = (sent, st')" by (cases p)
    have "refs st' = refs st" "length (objects st') = length (objects st)"
      using Some monitorResume_refs monitorResume_length unfolding p by blast+
    then show ?thesis unfolding CycleResumed using ok Some p by (simp add: storeOk_def)
  qed
qed


lemma runOverlaps_Nil: "runOverlaps [] st = st"
  by (simp add: runOverlaps_def)

lemma runOverlaps_Cons: "runOverlaps (ov # during) st = runOverlaps during (runOverlap ov st)"
  by (simp add: runOverlaps_def)

lemma storeOk_runOverlaps: "storeOk st \<Longrightarrow> storeOk (runOverlaps during st)"
  by (induction during arbitrary: st) (auto simp: runOverlaps_Nil runOverlaps_Cons storeOk_runOverlap)


lemma Map_get_Some_member: "Map_get m k = Some v \<Longrightarrow> (k, v) \<in> set m"
  by (induction m) (auto split: if_splits)

lemma storeOk_valid: "storeOk st \<Longrightarrow> Map_get (refs st) k = Some r \<Longrightarrow> r < length (objects st)"
  using Map_get_Some_member [of "refs st" k r] by (auto simp: storeOk_def list_all_iff)


text \<open>The condition \<open>storeOk\<close> holds of the empty store and is kept by every iteration,
  as by everything that runs during its wait.\<close>

lemma storeOk_empty: "storeOk \<lparr> objects = [], refs = [] \<rparr>"
  by (simp add: storeOk_def Map_keys_def)

lemma storeOk_monitorIteration:
  assumes "storeOk st" and "monitorIteration i during isAlive date st = Some (sent, st')"
  shows "storeOk st'"
proof -
  obtain addr r where "monitorResume r addr isAlive date (runOverlaps during st) = Some (sent, st')"
    using assms(2) by (auto simp: monitorIteration_def split: option.splits)
  then have "refs st' = refs (runOverlaps during st)"
    and "length (objects st') = length (objects (runOverlaps during st))"
    using monitorResume_refs monitorResume_length by blast+
  then show ?thesis
    using storeOk_runOverlaps [OF assms(1), of during] by (simp add: storeOk_def)
qed

text \<open>The objects that the map refers to are the records of the store by value: a merge
  of fresh objects is the merge of the records.\<close>

lemma elemAt_append_old: "r < length xs \<Longrightarrow> elemAt (xs @ ys) r = elemAt xs r"
proof -
  assume "r < length xs"
  then have "elemAt xs r = Some (xs ! r)" "elemAt (xs @ ys) r = Some (xs ! r)"
    by (simp_all add: elemAt_Some_iff nth_append)
  then show ?thesis by simp
qed

lemma elemAt_append_new: "elemAt (xs @ [x]) (length xs) = Some x"
  by (simp add: elemAt_Some_iff)

lemma recordOf_setFresh:
  assumes "storeOk st"
  shows "recordOf (setFresh d st) k = (if k = dev_ip d then Some d else recordOf st k)"
proof (cases "k = dev_ip d")
  case True
  then show ?thesis
    by (simp add: recordOf_def setFresh_def Map_get_set_same elemAt_append_new)
next
  case False
  show ?thesis
  proof (cases "Map_get (refs st) k")
    case None
    then show ?thesis using False by (simp add: recordOf_def setFresh_def Map_get_set_other)
  next
    case (Some r)
    have "r < length (objects st)" using assms Some by (rule storeOk_valid)
    then show ?thesis
      using False Some by (simp add: recordOf_def setFresh_def Map_get_set_other elemAt_append_old)
  qed
qed

lemma Map_get_Map_set: "Map_get (Map_set k v m) k' = (if k' = k then Some v else Map_get m k')"
  by (simp add: Map_get_set_same Map_get_set_other)

lemma recordOf_mergeFresh:
  assumes "storeOk st" and "\<forall>k. recordOf st k = Map_get m k"
  shows "recordOf (mergeFresh ds st) k = Map_get (mergeDevices ds m) k"
  using assms
proof (induction ds arbitrary: st m)
  case Nil
  then show ?case by (simp add: mergeFresh_Nil mergeDevices_Nil)
next
  case (Cons d ds)
  have ok: "storeOk (setFresh d st)" using Cons.prems(1) by (rule storeOk_setFresh)
  have same: "\<forall>k. recordOf (setFresh d st) k = Map_get (Map_set (dev_ip d) d m) k"
    using Cons.prems by (simp add: recordOf_setFresh Map_get_Map_set)
  show ?case
    unfolding mergeFresh_Cons mergeDevices_Cons using Cons.IH [OF ok same] .
qed




section \<open>Properties of the transition system\<close>

lemma monitorCycle_keys: "Map_keys (devices (snd (monitorCycle env s))) = Map_keys (devices s)"
  using monitorLoop_keys [of env "devices s"]
  by (cases "monitorLoop env (devices s)") (simp add: monitorCycle_def)

lemma scanBegin_devices: "devices (snd (scanBegin s)) = devices s"
  by (simp add: scanBegin_def)

lemma scanEnd_keys:
  "set (Map_keys (devices (snd (scanEnd outcome s))))
     = set (Map_keys (devices s)) \<union> (case outcome of Inl e \<Rightarrow> {} | Inr ds \<Rightarrow> dev_ip ` set ds)"
  by (auto simp: scanEnd_def Let_def set_Map_keys_merge split: sum.splits error.splits)

lemma operation_keys:
  assumes "operation env s s'"
  shows "set (Map_keys (devices s'))
           \<subseteq> set (Map_keys (devices s))
             \<union> (case scanNetworkARP env of Inl e \<Rightarrow> {} | Inr ds \<Rightarrow> dev_ip ` set ds)"
  using assms
proof (cases rule: operation.cases)
  case scan_request
  then show ?thesis by (simp add: scanBegin_devices)
next
  case scan_settled
  then show ?thesis by (simp add: scanEnd_keys)
next
  case monitor_cycle
  then show ?thesis by (simp add: monitorCycle_keys)
next
  case (monitor_write addr device isAlive date)
  have "Map_keys (Map_set addr (fst (monitorBody addr device isAlive date)) (devices s)) = Map_keys (devices s)"
    using monitor_write(2) by (simp add: Map_keys_set_known)
  then show ?thesis using monitor_write(1) by simp
qed

lemma operation_creates:
  assumes "operation env s s'"
    and "Map_get (devices s) k = None"
    and "Map_get (devices s') k \<noteq> None"
  shows "\<exists>ds. scanNetworkARP env = Inr ds \<and> k \<in> dev_ip ` set ds"
proof -
  have "k \<notin> set (Map_keys (devices s))" "k \<in> set (Map_keys (devices s'))"
    using assms(2,3) by (simp_all add: Map_get_None_iff)
  then show ?thesis
    using operation_keys [OF assms(1)] by (auto split: sum.splits)
qed

lemma scanNetworkARP_Inr_network:
  "scanNetworkARP env = Inr ds \<Longrightarrow> \<exists>nw. getLocalNetwork (networkInterfaces env) = Some nw"
  by (auto simp: scanNetworkARP_def split: option.splits)

text \<open>
  Claim C8. From any state, so from every reachable one, an operation of the server
  gives an address a record it did not have only when it is the end of a sweep on a host
  that has a network; and when the address of the host at that sweep is a dotted quad,
  the new address has its first three octets and a last octet from 1 to 254. No other
  operation, and no sweep outside its own range, creates a record.
\<close>

theorem no_record_outside_swept_range:
  assumes "operation env s s'"
    and "Map_get (devices s) k = None"
    and "Map_get (devices s') k \<noteq> None"
  shows "\<exists>nw. getLocalNetwork (networkInterfaces env) = Some nw
    \<and> (\<forall>a b c d.
          net_ip nw = a @ ''.'' @ b @ ''.'' @ c @ ''.'' @ d
          \<and> CHR ''.'' \<notin> set a \<and> CHR ''.'' \<notin> set b \<and> CHR ''.'' \<notin> set c
          \<and> CHR ''/'' \<notin> set a \<and> CHR ''/'' \<notin> set b \<and> CHR ''/'' \<notin> set c
          \<longrightarrow> (\<exists>i. 1 \<le> i \<and> i \<le> 254 \<and> k = a @ ''.'' @ b @ ''.'' @ c @ ''.'' @ decimal i))"
proof -
  obtain ds where ds: "scanNetworkARP env = Inr ds" "k \<in> dev_ip ` set ds"
    using operation_creates [OF assms] by blast
  obtain nw where nw: "getLocalNetwork (networkInterfaces env) = Some nw"
    using scanNetworkARP_Inr_network [OF ds(1)] by blast
  have "\<exists>i. 1 \<le> i \<and> i \<le> 254 \<and> k = a @ ''.'' @ b @ ''.'' @ c @ ''.'' @ decimal i"
    if ip: "net_ip nw = a @ ''.'' @ b @ ''.'' @ c @ ''.'' @ d"
      and dots: "CHR ''.'' \<notin> set a" "CHR ''.'' \<notin> set b" "CHR ''.'' \<notin> set c"
      and slashes: "CHR ''/'' \<notin> set a" "CHR ''/'' \<notin> set b" "CHR ''/'' \<notin> set c"
    for a b c d
  proof -
    have "ds = fulfilledValues (map (scanHost env) (candidates (a @ ''.'' @ b @ ''.'' @ c)))"
      using scanNetworkARP_dotted [OF nw ip dots slashes] ds(1) by simp
    then show ?thesis
      using ds(2) found_in_range [of _ env "a @ ''.'' @ b @ ''.'' @ c"] by auto
  qed
  then show ?thesis using nw by blast
qed

text \<open>
  After the sweep of the example network the host moves to \<open>10.0.0.5\<close>; the next sweep
  creates the record of \<open>10.0.0.7\<close>, in the range of that sweep, beside the records of
  the first.
\<close>

theorem no_record_outside_swept_range_witness:
  "operation movedEnv
     (snd (scanBegin (snd (scanEnd (scanNetworkARP exampleEnv) (snd (scanBegin initial))))))
     (snd (scanEnd (scanNetworkARP movedEnv)
        (snd (scanBegin (snd (scanEnd (scanNetworkARP exampleEnv) (snd (scanBegin initial))))))))
   \<and> Map_keys (devices (snd (scanBegin (snd (scanEnd (scanNetworkARP exampleEnv) (snd (scanBegin initial)))))))
       = [''192.168.1.1'', ''192.168.1.50'']
   \<and> Map_get (devices (snd (scanEnd (scanNetworkARP movedEnv)
        (snd (scanBegin (snd (scanEnd (scanNetworkARP exampleEnv) (snd (scanBegin initial))))))))) ''10.0.0.7''
       \<noteq> None
   \<and> (\<exists>i. 1 \<le> i \<and> i \<le> 254 \<and> ''10.0.0.7'' = ''10.0.0.'' @ decimal i)"
proof -
  let ?s1 = "snd (scanBegin (snd (scanEnd (scanNetworkARP exampleEnv) (snd (scanBegin initial)))))"
  let ?s2 = "snd (scanEnd (scanNetworkARP movedEnv) ?s1)"
  have s1: "?s1 = \<lparr> devices = [(''192.168.1.1'', exampleRouter), (''192.168.1.50'', exampleServer)],
                    scanInProgress = True \<rparr>"
    unfolding example_sweep
    by (simp add: scanEnd_def scanBegin_def initial_def mergeDevices_def Let_def
          exampleRouter_def exampleServer_def)
  have p: "scanInProgress ?s1" unfolding s1 by simp
  have op: "operation movedEnv ?s1 ?s2" using p by (rule operation.scan_settled)
  have k: "Map_keys (devices ?s1) = [''192.168.1.1'', ''192.168.1.50'']"
    unfolding s1 by (simp add: Map_keys_def)
  have before: "Map_get (devices ?s1) ''10.0.0.7'' = None" unfolding s1 by simp
  have nw: "getLocalNetwork (networkInterfaces movedEnv)
              = Some \<lparr> net_ip = ''10.0.0.5'', net_netmask = ''255.0.0.0'', net_networkRange = ''10.0.0.0/24'' \<rparr>"
    by code_simp
  have ip: "net_ip \<lparr> net_ip = ''10.0.0.5'', net_netmask = ''255.0.0.0'', net_networkRange = ''10.0.0.0/24'' \<rparr>
              = ''10'' @ ''.'' @ ''0'' @ ''.'' @ ''0'' @ ''.'' @ ''5''"
    by simp
  have oct: "CHR ''.'' \<notin> set ''10''" "CHR ''.'' \<notin> set ''0''" "CHR ''.'' \<notin> set ''0''"
    "CHR ''/'' \<notin> set ''10''" "CHR ''/'' \<notin> set ''0''" "CHR ''/'' \<notin> set ''0''"
    by simp_all
  have sw: "scanNetworkARP movedEnv
              = Inr (fulfilledValues (map (scanHost movedEnv) (candidates (''10'' @ ''.'' @ ''0'' @ ''.'' @ ''0''))))"
    using nw ip oct by (rule scanNetworkARP_dotted)
  have d7: "decimal 7 = ''7''" by code_simp
  have "(''10'' @ ''.'' @ ''0'' @ ''.'' @ ''0'') @ ''.'' @ decimal 7 \<in> set (candidates (''10'' @ ''.'' @ ''0'' @ ''.'' @ ''0''))"
    unfolding candidates_set by (intro CollectI exI [of _ 7]) simp
  then have c: "''10.0.0.7'' \<in> set (candidates (''10'' @ ''.'' @ ''0'' @ ''.'' @ ''0''))"
    unfolding d7 by simp
  have alive: "\<exists>r. probe movedEnv ''10.0.0.7'' = Inr r \<and> ping_alive r"
    by (simp add: movedEnv_def)
  have "\<exists>dev \<in> set (fulfilledValues (map (scanHost movedEnv) (candidates (''10'' @ ''.'' @ ''0'' @ ''.'' @ ''0'')))).
          dev_ip dev = ''10.0.0.7''"
    using found_address_iff [OF c, of movedEnv] alive by simp
  then have "''10.0.0.7'' \<in> dev_ip ` set (fulfilledValues (map (scanHost movedEnv) (candidates (''10'' @ ''.'' @ ''0'' @ ''.'' @ ''0''))))"
    by force
  then have "''10.0.0.7'' \<in> set (Map_keys (devices ?s2))"
    unfolding scanEnd_keys sw by simp
  then have after: "Map_get (devices ?s2) ''10.0.0.7'' \<noteq> None"
    by (simp add: Map_get_None_iff)
  obtain nw' where nw': "getLocalNetwork (networkInterfaces movedEnv) = Some nw'"
    and range: "\<forall>a b c d. net_ip nw' = a @ ''.'' @ b @ ''.'' @ c @ ''.'' @ d
          \<and> CHR ''.'' \<notin> set a \<and> CHR ''.'' \<notin> set b \<and> CHR ''.'' \<notin> set c
          \<and> CHR ''/'' \<notin> set a \<and> CHR ''/'' \<notin> set b \<and> CHR ''/'' \<notin> set c
          \<longrightarrow> (\<exists>i. 1 \<le> i \<and> i \<le> 254 \<and> ''10.0.0.7'' = a @ ''.'' @ b @ ''.'' @ c @ ''.'' @ decimal i)"
    using no_record_outside_swept_range [OF op before after] by blast
  have "net_ip nw' = ''10'' @ ''.'' @ ''0'' @ ''.'' @ ''0'' @ ''.'' @ ''5''"
    using nw nw' ip by simp
  then have "\<exists>i. 1 \<le> i \<and> i \<le> 254 \<and> ''10.0.0.7'' = ''10'' @ ''.'' @ ''0'' @ ''.'' @ ''0'' @ ''.'' @ decimal i"
    using range oct by blast
  then have "\<exists>i. 1 \<le> i \<and> i \<le> 254 \<and> ''10.0.0.7'' = ''10.0.0.'' @ decimal i" by simp
  then show ?thesis using op k after by blast
qed

text \<open>The store of a reachable state has one entry for an address.\<close>

lemma reachable_distinct: "reachable s \<Longrightarrow> distinct (Map_keys (devices s))"
proof (induction rule: reachable.induct)
  case start
  show ?case by (simp add: initial_def Map_keys_def)
next
  case (step s env s')
  from step.hyps(2) step.IH show ?case
  proof (cases rule: operation.cases)
    case scan_request
    then show ?thesis using step.IH by (simp add: scanBegin_devices)
  next
    case scan_settled
    then show ?thesis using step.IH
      by (cases "scanNetworkARP env")
         (auto simp: scanEnd_def Let_def distinct_mergeDevices split: error.splits)
  next
    case monitor_cycle
    then show ?thesis using step.IH by (simp add: monitorCycle_keys)
  next
    case (monitor_write addr device isAlive date)
    then show ?thesis using step.IH by (simp add: distinct_Map_set)
  qed
qed

end
